theory Spec2Isabelle
  imports Complex_Main "HOL-Library.Sublist"
begin

section \<open>Python string operations used by weatherbot.py\<close>

text \<open>
  A Python \<open>str\<close> is modelled as a \<open>string\<close> (a list of \<open>char\<close>), one \<open>char\<close> per
  code point; the model therefore covers the code points below 256.  The operations
  below are the built-in \<open>str\<close> methods the bot calls: \<open>split()\<close>, \<open>split(sep)\<close>,
  \<open>split(sep, 1)\<close>, \<open>strip()\<close>, \<open>startswith\<close>, \<open>in\<close>, \<open>find\<close> with a slice, \<open>join\<close> and
  list indexing, which raises \<open>IndexError\<close> out of range.
\<close>

datatype exn =
    IndexError
  | KeyError
  | TypeError
  | AttributeError
  | UnicodeDecodeError
  | OtherException string

definition CRLF :: string where
  "CRLF = [CHR 0x0D, CHR 0x0A]"

definition isspace :: "char \<Rightarrow> bool" where
  "isspace c = (c \<in> set [CHR 0x09, CHR 0x0A, CHR 0x0B, CHR 0x0C, CHR 0x0D,
                          CHR 0x1C, CHR 0x1D, CHR 0x1E, CHR 0x1F, CHR 0x20,
                          CHR 0x85, CHR 0xA0])"

text \<open>\<open>s.split()\<close>: the maximal runs of non-whitespace characters, in order.\<close>

fun split_ws_from :: "string \<Rightarrow> string \<Rightarrow> string list" where
  "split_ws_from cur [] = (if cur = [] then [] else [cur])"
| "split_ws_from cur (c # cs) =
     (if isspace c
      then (if cur = [] then split_ws_from [] cs else cur # split_ws_from [] cs)
      else split_ws_from (cur @ [c]) cs)"

definition py_split_ws :: "string \<Rightarrow> string list" where
  "py_split_ws s = split_ws_from [] s"

text \<open>
  \<open>s.split(sep)\<close>: cut at the occurrences of \<open>sep\<close> found scanning from the left,
  never overlapping.  The result is never empty.  Python raises \<open>ValueError\<close> for an
  empty separator; the bot only passes the literals \<open>"\r\n"\<close>, \<open>"PRIVMSG"\<close>, \<open>"!"\<close> and
  \<open>":"\<close>, and an empty separator here cuts nowhere.
\<close>

function py_split :: "string \<Rightarrow> string \<Rightarrow> string list" where
  "py_split sep [] = [[]]"
| "py_split sep (c # cs) =
     (if sep \<noteq> [] \<and> prefix sep (c # cs)
      then [] # py_split sep (drop (length sep) (c # cs))
      else (case py_split sep cs of
              [] \<Rightarrow> [[c]]
            | l # ls \<Rightarrow> (c # l) # ls))"
  by pat_completeness auto
termination
  by (relation "measure (\<lambda>(sep, s). length s)") auto

text \<open>\<open>s.split(sep, 1)\<close>: cut at the first occurrence of \<open>sep\<close> only.\<close>

fun py_split1 :: "string \<Rightarrow> string \<Rightarrow> string list" where
  "py_split1 sep [] = [[]]"
| "py_split1 sep (c # cs) =
     (if sep \<noteq> [] \<and> prefix sep (c # cs)
      then [[], drop (length sep) (c # cs)]
      else (case py_split1 sep cs of
              [] \<Rightarrow> [[c]]
            | l # ls \<Rightarrow> (c # l) # ls))"

text \<open>\<open>s.strip()\<close>, \<open>sub in s\<close>, \<open>s[s.find(sub):]\<close> (used only when \<open>sub in s\<close>),
  \<open>" ".join(xs)\<close> and \<open>xs[i]\<close>.\<close>

definition py_strip :: "string \<Rightarrow> string" where
  "py_strip s = rev (dropWhile isspace (rev (dropWhile isspace s)))"

fun contains :: "string \<Rightarrow> string \<Rightarrow> bool" where
  "contains sub [] = (sub = [])"
| "contains sub (c # cs) = (prefix sub (c # cs) \<or> contains sub cs)"

fun from_first :: "string \<Rightarrow> string \<Rightarrow> string" where
  "from_first sub [] = []"
| "from_first sub (c # cs) = (if prefix sub (c # cs) then c # cs else from_first sub cs)"

fun join_sp :: "string list \<Rightarrow> string" where
  "join_sp [] = []"
| "join_sp [x] = x"
| "join_sp (x # y # ys) = x @ '' '' @ join_sp (y # ys)"

definition py_index :: "'a list \<Rightarrow> nat \<Rightarrow> exn + 'a" where
  "py_index xs i = (if i < length xs then Inr (xs ! i) else Inl IndexError)"

section \<open>Line framing (\<open>WeatherBot.run\<close>, lines 164--166)\<close>

text \<open>
  \<open>buffer += chunk; lines = buffer.split("\r\n"); buffer = lines.pop()\<close>:
  one framing step returns the complete lines and the new buffer.
\<close>

definition frame_step :: "string \<Rightarrow> string \<Rightarrow> string list \<times> string" where
  "frame_step buffer chunk =
     (let lines = py_split CRLF (buffer @ chunk)
      in (butlast lines, last lines))"

text \<open>The framing step applied to a sequence of decoded chunks, one at a time.\<close>

fun frame_chunks :: "string \<Rightarrow> string list \<Rightarrow> string list \<times> string" where
  "frame_chunks buffer [] = ([], buffer)"
| "frame_chunks buffer (chunk # chunks) =
     (case frame_step buffer chunk of
        (lines, buffer') \<Rightarrow>
          (case frame_chunks buffer' chunks of
             (lines', buffer'') \<Rightarrow> (lines @ lines', buffer'')))"

definition reinsert :: "string list \<Rightarrow> string" where
  "reinsert lines = concat (map (\<lambda>l. l @ CRLF) lines)"

section \<open>Configuration and outbound messages (\<open>__init__\<close>, \<open>send\<close>, \<open>send_message\<close>)\<close>

definition nickname :: string where
  "nickname = ''WeatherBot''"

definition channels :: "string list" where
  "channels = [''#help'', ''#welcome'']"

text \<open>
  What a bot can do to the outside, in order: opening a new TLS socket, binding it to
  \<open>self.irc\<close> and connecting it (\<open>Connect\<close>), \<open>self.send(message)\<close> (\<open>Send message\<close>:
  the bytes written are \<open>message\<close> followed by CRLF), \<open>time.sleep(n)\<close> (\<open>Sleep n\<close>),
  and closing the socket bound to \<open>self.irc\<close> (\<open>Close\<close>).  The source has no call of
  \<open>close\<close> or \<open>shutdown\<close>, so no function below produces \<open>Close\<close>.  The debug \<open>print\<close>
  calls are left out, and a \<open>send\<close> is taken to succeed.
\<close>

datatype effect = Connect | Send string | Sleep nat | Close

definition send_message :: "string \<Rightarrow> string \<Rightarrow> effect" where
  "send_message target message = Send (''PRIVMSG '' @ target @ '' :'' @ message)"

text \<open>A computation that may raise: \<open>Inl\<close> the exception.  \<open>>>=\<close> of the exception monad.\<close>

definition and_then :: "exn + 'a \<Rightarrow> ('a \<Rightarrow> exn + 'b) \<Rightarrow> exn + 'b" where
  "and_then r f = (case r of Inl e \<Rightarrow> Inl e | Inr x \<Rightarrow> f x)"

section \<open>The weather lookup (\<open>get_coordinates\<close>, \<open>get_weather\<close>)\<close>

text \<open>
  The values \<open>response.json()\<close> can return.  A finite float is the rational it denotes
  (Python compares and hashes an \<open>int\<close> and a \<open>float\<close> by their exact values);
  \<open>JNonFinite\<close> stands for \<open>nan\<close> and the infinities.  A dict is its list of items,
  looked up by key.
\<close>

datatype json_value =
    JNull
  | JBool bool
  | JInt int
  | JFloat rat
  | JNonFinite
  | JStr string
  | JArr "json_value list"
  | JObj "(string \<times> json_value) list"

record response =
  status_code :: int
  json :: "exn + json_value"

text \<open>
  The outside world of the lookup: what \<open>requests.get(url)\<close> does (raise, or return a
  response), how \<open>str\<close> prints a JSON value inside an f-string, and the text \<open>str(e)\<close>
  of an exception.
\<close>

record world =
  requests_get :: "string \<Rightarrow> exn + response"
  py_str :: "json_value \<Rightarrow> string"
  exn_str :: "exn \<Rightarrow> string"

text \<open>Truth value of a value in a condition.\<close>

fun truthy :: "json_value \<Rightarrow> bool" where
  "truthy JNull = False"
| "truthy (JBool b) = b"
| "truthy (JInt n) = (n \<noteq> 0)"
| "truthy (JFloat q) = (q \<noteq> 0)"
| "truthy JNonFinite = True"
| "truthy (JStr s) = (s \<noteq> [])"
| "truthy (JArr xs) = (xs \<noteq> [])"
| "truthy (JObj kvs) = (kvs \<noteq> [])"

text \<open>\<open>data.get(key)\<close>: only a dict has the method.\<close>

fun dict_get :: "json_value \<Rightarrow> string \<Rightarrow> exn + json_value" where
  "dict_get (JObj kvs) k = Inr (case map_of kvs k of None \<Rightarrow> JNull | Some v \<Rightarrow> v)"
| "dict_get _ k = Inl AttributeError"

text \<open>\<open>x[key]\<close> with a string key, and \<open>x[0]\<close>.\<close>

fun getitem_key :: "json_value \<Rightarrow> string \<Rightarrow> exn + json_value" where
  "getitem_key (JObj kvs) k = (case map_of kvs k of None \<Rightarrow> Inl KeyError | Some v \<Rightarrow> Inr v)"
| "getitem_key _ k = Inl TypeError"

fun getitem_first :: "json_value \<Rightarrow> exn + json_value" where
  "getitem_first (JArr xs) = (case xs of [] \<Rightarrow> Inl IndexError | x # _ \<Rightarrow> Inr x)"
| "getitem_first (JStr s) = (case s of [] \<Rightarrow> Inl IndexError | c # _ \<Rightarrow> Inr (JStr [c]))"
| "getitem_first (JObj kvs) = Inl KeyError"
| "getitem_first _ = Inl TypeError"

record location =
  lat :: json_value
  lon :: json_value
  name :: json_value
  country :: json_value

definition geocoding_url :: "string \<Rightarrow> string" where
  "geocoding_url city =
     ''https://geocoding-api.open-meteo.com/v1/search?name='' @ city
       @ ''&count=1&language=en&format=json''"

text \<open>The body of the \<open>try\<close> of \<open>get_coordinates\<close> (lines 94--106).\<close>

definition get_coordinates_try :: "world \<Rightarrow> string \<Rightarrow> exn + location option" where
  "get_coordinates_try w city =
     and_then (requests_get w (geocoding_url city)) (\<lambda>response.
     and_then (json response) (\<lambda>data.
       if status_code response = 200
       then and_then (dict_get data ''results'') (\<lambda>results.
              if truthy results
              then and_then (and_then (getitem_key data ''results'') getitem_first) (\<lambda>loc.
                   and_then (getitem_key loc ''latitude'') (\<lambda>la.
                   and_then (getitem_key loc ''longitude'') (\<lambda>lo.
                   and_then (getitem_key loc ''name'') (\<lambda>na.
                   and_then (getitem_key loc ''country'') (\<lambda>co.
                     Inr (Some \<lparr>lat = la, lon = lo, name = na, country = co\<rparr>))))))
              else Inr None)
       else Inr None))"

text \<open>\<open>get_coordinates\<close>: any exception of the body is caught and gives \<open>None\<close>.\<close>

definition get_coordinates :: "world \<Rightarrow> string \<Rightarrow> location option" where
  "get_coordinates w city =
     (case get_coordinates_try w city of Inl e \<Rightarrow> None | Inr r \<Rightarrow> r)"

definition forecast_url :: "world \<Rightarrow> location \<Rightarrow> string" where
  "forecast_url w loc =
     ''https://api.open-meteo.com/v1/forecast?latitude='' @ py_str w (lat loc)
       @ ''&longitude='' @ py_str w (lon loc)
       @ ''&current=temperature_2m,relative_humidity_2m,wind_speed_10m,weather_code''"

definition weather_codes :: "(int \<times> string) list" where
  "weather_codes =
     [(0, ''Clear sky''),
      (1, ''Mainly clear''), (2, ''Partly cloudy''), (3, ''Overcast''),
      (45, ''Foggy''), (48, ''Depositing rime fog''),
      (51, ''Light drizzle''), (53, ''Moderate drizzle''), (55, ''Dense drizzle''),
      (61, ''Slight rain''), (63, ''Moderate rain''), (65, ''Heavy rain''),
      (71, ''Slight snow''), (73, ''Moderate snow''), (75, ''Heavy snow''),
      (77, ''Snow grains''),
      (80, ''Slight rain showers''), (81, ''Moderate rain showers''),
      (82, ''Violent rain showers''),
      (85, ''Slight snow showers''), (86, ''Heavy snow showers''),
      (95, ''Thunderstorm''), (96, ''Thunderstorm with hail''),
      (99, ''Thunderstorm with heavy hail'')]"

definition code_text :: "int \<Rightarrow> string" where
  "code_text n = (case map_of weather_codes n of None \<Rightarrow> ''Unknown'' | Some d \<Rightarrow> d)"

text \<open>
  \<open>weather_codes.get(code, "Unknown")\<close>: a list or a dict is unhashable
  (\<open>TypeError\<close>); \<open>True\<close> and \<open>False\<close> are the keys 1 and 0; a float is the key it
  equals, if any.
\<close>

fun weather_desc :: "json_value \<Rightarrow> exn + string" where
  "weather_desc (JInt n) = Inr (code_text n)"
| "weather_desc (JBool b) = Inr (code_text (if b then 1 else 0))"
| "weather_desc (JFloat q) =
     Inr (if q = of_int \<lfloor>q\<rfloor> then code_text \<lfloor>q\<rfloor> else ''Unknown'')"
| "weather_desc (JArr xs) = Inl TypeError"
| "weather_desc (JObj kvs) = Inl TypeError"
| "weather_desc _ = Inr ''Unknown''"

text \<open>The body of the \<open>try\<close> of \<open>get_weather\<close> (lines 115--149).\<close>

definition get_weather_try :: "world \<Rightarrow> string \<Rightarrow> exn + string" where
  "get_weather_try w city =
     (case get_coordinates w city of
        None \<Rightarrow> Inr (''Could not find location: '' @ city)
      | Some loc \<Rightarrow>
          and_then (requests_get w (forecast_url w loc)) (\<lambda>response.
            if status_code response = 200
            then and_then (json response) (\<lambda>data.
                 and_then (getitem_key data ''current'') (\<lambda>current.
                 and_then (getitem_key current ''weather_code'') (\<lambda>code.
                 and_then (weather_desc code) (\<lambda>desc.
                 and_then (getitem_key current ''temperature_2m'') (\<lambda>t.
                 and_then (getitem_key current ''relative_humidity_2m'') (\<lambda>h.
                 and_then (getitem_key current ''wind_speed_10m'') (\<lambda>v.
                   Inr (''Weather in '' @ py_str w (name loc) @ '', ''
                        @ py_str w (country loc) @ '': '' @ desc @ '', ''
                        @ ''Temperature: '' @ py_str w t @ [CHR 0xB0] @ ''C, ''
                        @ ''Humidity: '' @ py_str w h @ ''%, ''
                        @ ''Wind: '' @ py_str w v @ '' km/h''))))))))
            else Inr (''Could not fetch weather data for '' @ city)))"

text \<open>\<open>get_weather\<close>: any exception of the body becomes the returned text.\<close>

definition get_weather :: "world \<Rightarrow> string \<Rightarrow> string" where
  "get_weather w city =
     (case get_weather_try w city of
        Inl e \<Rightarrow> ''Error fetching weather data: '' @ exn_str w e
      | Inr text \<Rightarrow> text)"

section \<open>Dispatch of one line (\<open>WeatherBot.run\<close>, lines 168--201)\<close>

definition help_msg :: string where
  "help_msg = ''MansionNet Weather Bot | Commands: !weather <city> - Get weather information for a city''"

text \<open>Lines 189--201: the commands in a channel message.\<close>

definition handle_message :: "world \<Rightarrow> string \<Rightarrow> string \<Rightarrow> effect list" where
  "handle_message w target_channel message =
     (if prefix ''!weather'' message
      then (let parts = py_split_ws message
            in if length parts > 1
               then [send_message target_channel (get_weather w (join_sp (drop 1 parts)))]
               else [send_message target_channel ''Usage: !weather <city>''])
      else if message = ''!help''
      then [send_message target_channel help_msg]
      else [])"

text \<open>
  The line by which a server relays a message: \<open>:origin PRIVMSG target :text\<close>.
\<close>

definition privmsg_line :: "string \<Rightarrow> string \<Rightarrow> string \<Rightarrow> string" where
  "privmsg_line origin target text =
     '':'' @ origin @ '' PRIVMSG '' @ target @ '' :'' @ text"

text \<open>Lines 179--180 and 185: the target and the text the bot reads off a line.\<close>

definition target_of :: "string \<Rightarrow> exn + string" where
  "target_of line = py_index (py_split_ws line) 2"

definition message_of :: "string \<Rightarrow> exn + string" where
  "message_of line =
     and_then (py_index (py_split ''PRIVMSG'' line) 1) (\<lambda>rest.
     and_then (py_index (py_split1 '':'' rest) 1) (\<lambda>text.
       Inr (py_strip text)))"

text \<open>
  The effects of a piece of code and the exception it ended with, if any.
  Lines 172--174: the reply to a \<open>PING\<close>.
\<close>

definition handle_ping :: "string \<Rightarrow> effect list \<times> exn option" where
  "handle_ping line =
     (if prefix ''PING'' line
      then (case py_index (py_split_ws line) 1 of
              Inl e \<Rightarrow> ([], Some e)
            | Inr ping_token \<Rightarrow> ([Send (''PONG '' @ ping_token)], None))
      else ([], None))"

text \<open>
  Lines 177--201: a channel message.  The \<open>sender\<close> of line 184,
  \<open>line.split("!")[0][1:]\<close>, never raises and is only printed.
\<close>

definition handle_privmsg :: "world \<Rightarrow> string \<Rightarrow> effect list \<times> exn option" where
  "handle_privmsg w line =
     (if contains ''PRIVMSG'' line
      then (case target_of line of
              Inl e \<Rightarrow> ([], Some e)
            | Inr target_channel \<Rightarrow>
                if target_channel \<in> set channels
                then (case message_of line of
                        Inl e \<Rightarrow> ([], Some e)
                      | Inr message \<Rightarrow> (handle_message w target_channel message, None))
                else ([], None))
      else ([], None))"

definition handle_line :: "world \<Rightarrow> string \<Rightarrow> effect list \<times> exn option" where
  "handle_line w line =
     (case handle_ping line of
        (out, Some e) \<Rightarrow> (out, Some e)
      | (out, None) \<Rightarrow>
          (case handle_privmsg w line of (out', r) \<Rightarrow> (out @ out', r)))"

text \<open>The \<open>for line in lines\<close> loop: an exception ends it.\<close>

fun process_lines :: "world \<Rightarrow> string list \<Rightarrow> effect list \<times> exn option" where
  "process_lines w [] = ([], None)"
| "process_lines w (line # lines) =
     (case handle_line w line of
        (out, Some e) \<Rightarrow> (out, Some e)
      | (out, None) \<Rightarrow>
          (case process_lines w lines of (out', r) \<Rightarrow> (out @ out', r)))"

section \<open>The read loops (\<open>connect\<close>, lines 40--72, and \<open>run\<close>, lines 159--205)\<close>

text \<open>
  What one \<open>self.irc.recv(2048).decode("UTF-8")\<close> gives: a decoded chunk of text (empty
  when the peer has closed the connection), or an exception: \<open>UnicodeDecodeError\<close> of
  the decoding, or any other of the read.
\<close>

datatype recv = Chunk string | Raises exn

text \<open>
  One pass through the body of a read loop either goes on to the next pass with a new
  buffer, or leaves the loop.
\<close>

datatype 'a pass = Continue string "effect list" | Leave 'a "effect list"

text \<open>Lines 49--52: the reply to a \<open>PING\<close> while registering.\<close>

definition registration_ping :: "string \<Rightarrow> exn + effect list" where
  "registration_ping buffer =
     (if contains ''PING'' buffer
      then and_then (py_index (py_split_ws (from_first ''PING'' buffer)) 1) (\<lambda>ping_token.
             Inr [Send (''PONG '' @ ping_token)])
      else Inr [])"

text \<open>
  One pass of the registration loop.  \<open>Leave True\<close> is the \<open>break\<close> with
  \<open>registered = True\<close>, \<open>Leave False\<close> is \<open>return False\<close>.
\<close>

definition registration_pass :: "string \<Rightarrow> recv \<Rightarrow> bool pass" where
  "registration_pass buffer r =
     (case r of
        Raises e \<Rightarrow>
          if e = UnicodeDecodeError then Continue [] [] else Leave False [Sleep 5]
      | Chunk temp \<Rightarrow>
          (let buffer = buffer @ temp
           in case registration_ping buffer of
                Inl e \<Rightarrow> Leave False [Sleep 5]
              | Inr pong \<Rightarrow>
                  if contains ''001'' buffer then Leave True pong
                  else if contains ''Closing Link'' buffer \<or> contains ''ERROR'' buffer
                  then Leave False (pong @ [Sleep 5])
                  else Continue buffer pong))"

text \<open>
  The registration loop on the reads of a finite feed.  When the feed runs out
  before the loop is left, the loop is still waiting in \<open>recv\<close> (\<open>Waiting\<close>, with its
  buffer): the source sets no timeout on the socket.
\<close>

datatype 'a loop_end = Left 'a "recv list" | Waiting string

fun registration_loop :: "string \<Rightarrow> recv list \<Rightarrow> effect list \<times> bool loop_end" where
  "registration_loop buffer [] = ([], Waiting buffer)"
| "registration_loop buffer (r # feed) =
     (case registration_pass buffer r of
        Leave b out \<Rightarrow> (out, Left b feed)
      | Continue buffer' out \<Rightarrow>
          (case registration_loop buffer' feed of (out', e) \<Rightarrow> (out @ out', e)))"




definition welcome_line :: string where
  "welcome_line = '':irc 001 WeatherBot :Welcome'' @ CRLF"


text \<open>One pass of the loop of \<open>run\<close> (lines 162--205).\<close>

definition active_pass :: "world \<Rightarrow> string \<Rightarrow> recv \<Rightarrow> exn pass" where
  "active_pass w buffer r =
     (case r of
        Raises e \<Rightarrow>
          if e = UnicodeDecodeError then Continue [] [] else Leave e []
      | Chunk chunk \<Rightarrow>
          (case frame_step buffer chunk of
             (lines, buffer') \<Rightarrow>
               (case process_lines w lines of
                  (out, Some e) \<Rightarrow> Leave e out
                | (out, None) \<Rightarrow> Continue buffer' out)))"

fun active_loop :: "world \<Rightarrow> string \<Rightarrow> recv list \<Rightarrow> effect list \<times> exn loop_end" where
  "active_loop w buffer [] = ([], Waiting buffer)"
| "active_loop w buffer (r # feed) =
     (case active_pass w buffer r of
        Leave e out \<Rightarrow> (out, Left e feed)
      | Continue buffer' out \<Rightarrow>
          (case active_loop w buffer' feed of (out', e) \<Rightarrow> (out @ out', e)))"

section \<open>Connecting and reconnecting (\<open>connect\<close> and \<open>run\<close>)\<close>

text \<open>
  One connection the bot opens: either \<open>self.irc.connect\<close> raises, or the connection
  delivers a feed of reads.
\<close>

datatype link = Refused exn | Link "recv list"

datatype connected = Joined "recv list" | NotRegistered | ConnectRaised exn | StillRegistering string

definition join_channels :: "effect list" where
  "join_channels = concat (map (\<lambda>channel. [Send (''JOIN '' @ channel), Sleep 1]) channels)"

definition connect :: "link \<Rightarrow> effect list \<times> connected" where
  "connect l =
     (case l of
        Refused e \<Rightarrow> ([Connect], ConnectRaised e)
      | Link feed \<Rightarrow>
          (case registration_loop [] feed of
             (out, e) \<Rightarrow>
               ([Connect,
                 Send (''NICK '' @ nickname),
                 Send (''USER '' @ nickname @ '' 0 * :MansionNet Weather Information Bot'')]
                @ out
                @ (case e of Left True rest \<Rightarrow> join_channels | _ \<Rightarrow> []),
                case e of
                  Left True rest \<Rightarrow> Joined rest
                | Left False rest \<Rightarrow> NotRegistered
                | Waiting buffer \<Rightarrow> StillRegistering buffer)))"

text \<open>
  The outer loop of \<open>run\<close> on the connections it gets to open, in order.  It has no
  exit: it ends here only when the connections run out (\<open>Stopped\<close>) or when a read loop
  is left waiting (\<open>Blocked\<close>).
\<close>

datatype run_end = Stopped | Blocked

fun run :: "world \<Rightarrow> link list \<Rightarrow> effect list \<times> run_end" where
  "run w [] = ([], Stopped)"
| "run w (l # links) =
     (case connect l of
        (out, ConnectRaised e) \<Rightarrow>
          (case run w links of (out', r) \<Rightarrow> (out @ [Sleep 30] @ out', r))
      | (out, NotRegistered) \<Rightarrow>
          (case run w links of (out', r) \<Rightarrow> (out @ out', r))
      | (out, StillRegistering buffer) \<Rightarrow> (out, Blocked)
      | (out, Joined feed) \<Rightarrow>
          (case active_loop w [] feed of
             (out1, Waiting buffer) \<Rightarrow> (out @ out1, Blocked)
           | (out1, Left e rest) \<Rightarrow>
               (case run w links of (out', r) \<Rightarrow> (out @ out1 @ [Sleep 30] @ out', r))))"

section \<open>Concrete worlds\<close>

text \<open>
  A world in which the geocoding service and the forecast service each behave in one
  fixed way, whatever is asked.  \<open>str\<close> of a JSON string is the string itself; the
  digits of a number are not modelled.
\<close>

definition stub_world :: "exn + response \<Rightarrow> exn + response \<Rightarrow> world" where
  "stub_world geocoding forecast =
     \<lparr>requests_get = (\<lambda>url.
        if prefix ''https://geocoding-api.open-meteo.com/'' url then geocoding else forecast),
      py_str = (\<lambda>v. case v of JStr s \<Rightarrow> s | JInt n \<Rightarrow> ''<int>'' | JFloat q \<Rightarrow> ''<float>''
                       | _ \<Rightarrow> ''?''),
      exn_str = (\<lambda>e. case e of OtherException m \<Rightarrow> m | _ \<Rightarrow> ''error'')\<rparr>"




text \<open>
  \<open>offline\<close>: every request raises.  \<open>forecast_unavailable\<close>: the geocoding service
  finds Paris, the forecast service answers with status 503.
\<close>

definition offline :: world where
  "offline =
     stub_world (Inl (OtherException ''unreachable'')) (Inl (OtherException ''unreachable''))"


section \<open>Facts about the model\<close>

lemma py_split_not_Nil: "py_split sep s \<noteq> []"
  by (induction sep s rule: py_split.induct) (auto split: list.splits)

lemma py_split_join:
  "concat (map (\<lambda>l. l @ sep) (butlast (py_split sep s))) @ last (py_split sep s) = s"
proof (induction sep s rule: py_split.induct)
  case (1 sep)
  show ?case by simp
next
  case (2 sep c cs)
  show ?case
  proof (cases "sep \<noteq> [] \<and> prefix sep (c # cs)")
    case True
    then obtain r where r: "c # cs = sep @ r" by (auto simp: prefix_def)
    have d: "drop (length sep) (c # cs) = r"
      using r by (metis append_eq_conv_conj)
    have e: "py_split sep (c # cs) = [] # py_split sep r"
      using True d by (simp del: drop_Suc_Cons)
    from 2(1) True d have ih: "concat (map (\<lambda>l. l @ sep) (butlast (py_split sep r))) @ last (py_split sep r) = r"
      by simp
    show ?thesis
      unfolding e using ih r by (simp add: py_split_not_Nil)
  next
    case False
    obtain l ls where s: "py_split sep cs = l # ls"
      using py_split_not_Nil [of sep cs] by (cases "py_split sep cs") auto
    with False 2(2) show ?thesis
      by (cases ls) auto
  qed
qed

lemma py_split_short: "length s < length sep \<Longrightarrow> py_split sep s = [s]"
proof (induction s)
  case Nil
  show ?case by simp
next
  case (Cons c cs)
  then have "\<not> prefix sep (c # cs)"
    by (auto dest: prefix_length_le)
  with Cons show ?case by simp
qed

lemma py_split_single: "py_split sep s = [l] \<Longrightarrow> l = s"
  using py_split_join [of sep s] by simp

lemma py_split_append:
  assumes "sep \<noteq> []"
  shows "py_split sep (s @ c) =
         butlast (py_split sep s) @ py_split sep (last (py_split sep s) @ c)"
  using assms
proof (induction sep s rule: py_split.induct)
  case (1 sep)
  show ?case by simp
next
  case (2 sep x xs)
  show ?case
  proof (cases "prefix sep (x # xs)")
    case True
    then obtain r where r: "x # xs = sep @ r" by (auto simp: prefix_def)
    have p: "prefix sep (x # xs @ c)" using True by (metis Cons_eq_appendI prefix_prefix)
    from 2(1) True 2(3) r have ih: "py_split sep (r @ c) = butlast (py_split sep r) @ py_split sep (last (py_split sep r) @ c)"
      by simp
    have d: "drop (length sep) (x # xs @ c) = r @ c"
      using r by (metis append_Cons append_assoc append_eq_conv_conj)
    have d': "drop (length sep) (x # xs) = r"
      using r by (metis append_eq_conv_conj)
    show ?thesis
      using True p 2(3) ih d d' by (simp add: py_split_not_Nil del: drop_Suc_Cons)
  next
    case False
    note np = False
    obtain l ls where s: "py_split sep xs = l # ls"
      using py_split_not_Nil [of sep xs] by (cases "py_split sep xs") auto
    show ?thesis
    proof (cases ls)
      case Nil
      with s have "l = xs" by (simp add: py_split_single)
      with s Nil np show ?thesis by simp
    next
      case (Cons l' ls')
      have "length sep \<le> length (x # xs)"
      proof (rule ccontr)
        assume "\<not> length sep \<le> length (x # xs)"
        then have "py_split sep xs = [xs]" by (intro py_split_short) simp
        with s Cons show False by simp
      qed
      with np have np': "\<not> prefix sep (x # xs @ c)"
        by (metis append_Cons prefix_length_prefix prefixI prefix_order.dual_order.refl prefix_order.order_trans)
      from 2(2) np 2(3) have ih: "py_split sep (xs @ c) = butlast (py_split sep xs) @ py_split sep (last (py_split sep xs) @ c)"
        by simp
      show ?thesis using np np' s Cons ih by simp
    qed
  qed
qed

lemma reinsert_append: "reinsert (xs @ ys) = reinsert xs @ reinsert ys"
  by (simp add: reinsert_def)

lemma frame_step_roundtrip:
  "frame_step b c = (ls, b') \<Longrightarrow> reinsert ls @ b' = b @ c"
  using py_split_join [of CRLF "b @ c"]
  by (auto simp: frame_step_def Let_def reinsert_def)

lemma frame_chunks_roundtrip:
  "frame_chunks b chunks = (ls, r) \<Longrightarrow> reinsert ls @ r = b @ concat chunks"
proof (induction chunks arbitrary: b ls r)
  case Nil
  then show ?case by (simp add: reinsert_def)
next
  case (Cons c cs)
  obtain l1 b1 where fs: "frame_step b c = (l1, b1)" by fastforce
  obtain l2 b2 where fc: "frame_chunks b1 cs = (l2, b2)" by fastforce
  from Cons.prems fs fc have e: "ls = l1 @ l2" "r = b2" by simp_all
  have "reinsert ls @ r = reinsert l1 @ (reinsert l2 @ b2)"
    by (simp add: e reinsert_append)
  also have "\<dots> = reinsert l1 @ (b1 @ concat cs)"
    by (simp only: Cons.IH [OF fc])
  also have "\<dots> = (reinsert l1 @ b1) @ concat cs" by simp
  also have "\<dots> = (b @ c) @ concat cs"
    by (simp only: frame_step_roundtrip [OF fs])
  finally show ?case by simp
qed

lemma frame_chunks_whole:
  "frame_chunks b (c # cs) = frame_step b (concat (c # cs))"
proof (induction cs arbitrary: b c)
  case Nil
  show ?case by (simp add: frame_step_def Let_def)
next
  case (Cons d ds)
  have ne: "CRLF \<noteq> []" by (simp add: CRLF_def)
  define b' where "b' = last (py_split CRLF (b @ c))"
  have ih: "frame_chunks b' (d # ds) = frame_step b' (concat (d # ds))"
    by (rule Cons)
  have sp: "py_split CRLF ((b @ c) @ concat (d # ds)) =
            butlast (py_split CRLF (b @ c)) @ py_split CRLF (b' @ concat (d # ds))"
    unfolding b'_def by (rule py_split_append [OF ne])
  have "frame_chunks b (c # d # ds) =
        (butlast (py_split CRLF (b @ c)) @ fst (frame_chunks b' (d # ds)),
         snd (frame_chunks b' (d # ds)))"
    by (simp add: frame_step_def Let_def b'_def split: prod.splits)
  also have "\<dots> = (butlast (py_split CRLF (b @ c)) @ butlast (py_split CRLF (b' @ concat (d # ds))),
                    last (py_split CRLF (b' @ concat (d # ds))))"
    unfolding ih by (simp add: frame_step_def Let_def)
  also have "\<dots> = frame_step b (concat (c # d # ds))"
    using sp by (simp add: frame_step_def Let_def butlast_append py_split_not_Nil)
  finally show ?case .
qed

lemma py_split_CRLF_line:
  "\<not> contains CRLF l \<Longrightarrow> py_split CRLF (l @ CRLF @ rest) = l # py_split CRLF rest"
proof (induction l)
  case Nil
  show ?case by (simp add: CRLF_def)
next
  case (Cons x xs)
  then have np: "\<not> prefix CRLF (x # xs)" and nc: "\<not> contains CRLF xs" by simp_all
  have "\<not> prefix CRLF (x # xs @ CRLF @ rest)"
    using np by (cases xs) (auto simp: CRLF_def)
  with Cons.IH [OF nc] show ?case by simp
qed

lemma py_split_CRLF_lines:
  "\<forall>l\<in>set ls. \<not> contains CRLF l \<Longrightarrow> py_split CRLF (reinsert ls) = ls @ [[]]"
proof (induction ls)
  case Nil
  show ?case by (simp add: reinsert_def)
next
  case (Cons l ls)
  then show ?case
    using py_split_CRLF_line [of l "reinsert ls"] by (simp add: reinsert_def)
qed

lemma split_ws_from_token:
  "\<forall>c\<in>set tok. \<not> isspace c \<Longrightarrow> split_ws_from cur (tok @ s) = split_ws_from (cur @ tok) s"
  by (induction tok arbitrary: cur) simp_all

lemma split_ws_from_head:
  "cur \<noteq> [] \<Longrightarrow> \<exists>t rest. split_ws_from cur s = (cur @ t) # rest"
proof (induction s arbitrary: cur)
  case Nil
  then show ?case by simp
next
  case (Cons c s)
  show ?case
  proof (cases "isspace c")
    case True
    with Cons.prems show ?thesis by simp
  next
    case False
    from Cons.IH [of "cur @ [c]"] obtain t rest
      where "split_ws_from (cur @ [c]) s = ((cur @ [c]) @ t) # rest" by auto
    with False show ?thesis by simp
  qed
qed

lemma prefix_append_short:
  "prefix p (u @ v) \<Longrightarrow> length p \<le> length u \<Longrightarrow> prefix p u"
  by (auto simp: prefix_append)

lemma prefix_sep_char:
  "c \<notin> set sep \<Longrightarrow> prefix sep (u @ c # v) = prefix sep u"
  by (auto simp: prefix_append prefix_Cons)

lemma contains_sep_char:
  "c \<notin> set sep \<Longrightarrow> contains sep (u @ c # v) = (contains sep u \<or> contains sep v)"
proof (induction u)
  case Nil
  then show ?case by (cases sep) (auto simp: prefix_Cons)
next
  case (Cons x us)
  have "prefix sep (x # us @ c # v) = prefix sep (x # us)"
    using prefix_sep_char [OF Cons.prems, of "x # us" v] by simp
  with Cons show ?case by auto
qed

lemma py_split_none: "\<not> contains sep s \<Longrightarrow> py_split sep s = [s]"
  by (induction s) auto

lemma py_split_at_sep:
  assumes "sep \<noteq> []"
  shows "py_split sep (sep @ b) = [] # py_split sep b"
proof -
  obtain c cs where e: "sep @ b = c # cs" using assms by (cases sep) auto
  have p: "prefix sep (c # cs)" unfolding e [symmetric] by simp
  have d: "drop (length sep) (c # cs) = b" unfolding e [symmetric] by simp
  have "py_split sep (c # cs) = [] # py_split sep (drop (length sep) (c # cs))"
    using assms p by (simp del: drop_Suc_Cons)
  then have "py_split sep (c # cs) = [] # py_split sep b" by (simp only: d)
  then show ?thesis by (simp only: e [symmetric])
qed

lemma py_split_first:
  assumes "sep \<noteq> []" and "\<not> contains sep (a @ butlast sep)"
  shows "py_split sep (a @ sep @ b) = a # py_split sep b"
  using assms(2)
proof (induction a)
  case Nil
  with assms(1) show ?case by (simp add: py_split_at_sep)
next
  case (Cons x xs)
  from Cons.prems have np: "\<not> prefix sep (x # xs @ butlast sep)"
    and nc: "\<not> contains sep (xs @ butlast sep)" by simp_all
  have n1: "\<not> prefix sep ((x # xs @ butlast sep) @ last sep # b)"
  proof
    assume "prefix sep ((x # xs @ butlast sep) @ last sep # b)"
    moreover have "length sep \<le> length (x # xs @ butlast sep)" by simp
    ultimately have "prefix sep (x # xs @ butlast sep)" by (rule prefix_append_short)
    with np show False ..
  qed
  have eq: "(x # xs @ butlast sep) @ last sep # b = x # xs @ sep @ b"
  proof -
    have bl: "butlast sep @ [last sep] = sep" using assms(1) by simp
    have "(x # xs @ butlast sep) @ last sep # b = x # xs @ (butlast sep @ [last sep]) @ b"
      by simp
    also have "\<dots> = x # xs @ sep @ b" by (simp only: bl)
    finally show ?thesis .
  qed
  from n1 [unfolded eq] have "\<not> prefix sep (x # xs @ sep @ b)" .
  with Cons.IH [OF nc] show ?case by simp
qed

lemma py_split1_first:
  "c \<notin> set u \<Longrightarrow> py_split1 [c] (u @ c # v) = [u, v]"
  by (induction u) auto


lemma and_then_Inr: "and_then (Inr x) f = f x"
  by (simp add: and_then_def)


lemma split_ws_token_space:
  assumes "tok \<noteq> []" and "\<forall>c\<in>set tok. \<not> isspace c" and "isspace c"
  shows "split_ws_from [] (tok @ c # s) = tok # split_ws_from [] s"
  using assms by (simp add: split_ws_from_token)

lemma contains_at: "contains sep (a @ sep @ b)"
proof (induction a)
  case Nil
  show ?case
  proof (cases "sep @ b")
    case Nil
    then show ?thesis by simp
  next
    case (Cons c cs)
    have "prefix sep (c # cs)" unfolding Cons [symmetric] by simp
    then show ?thesis using Cons by simp
  qed
next
  case (Cons x xs)
  then show ?case by simp
qed

lemma privmsg_line_tokens:
  assumes "\<forall>c\<in>set origin. \<not> isspace c"
      and "target \<noteq> []" and "\<forall>c\<in>set target. \<not> isspace c"
  shows "py_split_ws (privmsg_line origin target text) =
         ('':'' @ origin) # ''PRIVMSG'' # target # py_split_ws ('':'' @ text)"
proof -
  have sp: "isspace (CHR '' '')" by (simp add: isspace_def)
  have o: "\<forall>c\<in>set ('':'' @ origin). \<not> isspace c"
    using assms(1) by (simp add: isspace_def)
  have p: "\<forall>c\<in>set ''PRIVMSG''. \<not> isspace c" by (simp add: isspace_def)
  have "privmsg_line origin target text =
        ('':'' @ origin) @ CHR '' '' # (''PRIVMSG'' @ CHR '' '' # (target @ CHR '' '' # ('':'' @ text)))"
    by (simp add: privmsg_line_def)
  then have "py_split_ws (privmsg_line origin target text) =
        split_ws_from [] (('':'' @ origin) @ CHR '' '' #
          (''PRIVMSG'' @ CHR '' '' # (target @ CHR '' '' # ('':'' @ text))))"
    by (simp only: py_split_ws_def)
  also have "\<dots> = ('':'' @ origin) # split_ws_from []
          (''PRIVMSG'' @ CHR '' '' # (target @ CHR '' '' # ('':'' @ text)))"
    by (rule split_ws_token_space [OF _ o sp]) simp
  also have "split_ws_from [] (''PRIVMSG'' @ CHR '' '' # (target @ CHR '' '' # ('':'' @ text))) =
        ''PRIVMSG'' # split_ws_from [] (target @ CHR '' '' # ('':'' @ text))"
    by (rule split_ws_token_space [OF _ p sp]) simp
  also have "split_ws_from [] (target @ CHR '' '' # ('':'' @ text)) =
        target # split_ws_from [] ('':'' @ text)"
    by (rule split_ws_token_space [OF assms(2) assms(3) sp])
  finally show ?thesis by (simp only: py_split_ws_def)
qed

lemma privmsg_line_target:
  assumes "\<forall>c\<in>set origin. \<not> isspace c"
      and "target \<noteq> []" and "\<forall>c\<in>set target. \<not> isspace c"
  shows "target_of (privmsg_line origin target text) = Inr target"
  by (simp add: target_of_def py_index_def privmsg_line_tokens [OF assms])

lemma privmsg_line_no_ping: "handle_ping (privmsg_line origin target text) = ([], None)"
  by (simp add: handle_ping_def privmsg_line_def)

lemma privmsg_line_contains: "contains ''PRIVMSG'' (privmsg_line origin target text)"
proof -
  have "privmsg_line origin target text =
        ('':'' @ origin @ '' '') @ ''PRIVMSG'' @ ('' '' @ target @ '' :'' @ text)"
    by (simp add: privmsg_line_def)
  then show ?thesis by (simp only: contains_at)
qed

lemma privmsg_line_message:
  assumes "\<not> contains ''PRIVMSG'' origin"
      and "\<not> contains ''PRIVMSG'' target" and "CHR '':'' \<notin> set target"
      and "\<not> contains ''PRIVMSG'' text"
  shows "message_of (privmsg_line origin target text) = Inr (py_strip text)"
proof -
  let ?a = "'':'' @ origin @ '' ''"
  let ?b = "'' '' @ target @ '' :'' @ text"
  have e: "privmsg_line origin target text = ?a @ ''PRIVMSG'' @ ?b"
    by (simp add: privmsg_line_def)
  have "contains ''PRIVMSG'' (('':'' @ origin) @ CHR '' '' # ''PRIVMS'') =
        (contains ''PRIVMSG'' ('':'' @ origin) \<or> contains ''PRIVMSG'' ''PRIVMS'')"
    by (rule contains_sep_char) simp
  then have na: "\<not> contains ''PRIVMSG'' (?a @ butlast ''PRIVMSG'')"
    using assms(1) by simp
  have "contains ''PRIVMSG'' ([] @ CHR '' '' # (target @ CHR '' '' # ([] @ CHR '':'' # text))) =
        (contains ''PRIVMSG'' [] \<or> contains ''PRIVMSG'' (target @ CHR '' '' # ([] @ CHR '':'' # text)))"
    by (rule contains_sep_char) simp
  moreover have "contains ''PRIVMSG'' (target @ CHR '' '' # ([] @ CHR '':'' # text)) =
        (contains ''PRIVMSG'' target \<or> contains ''PRIVMSG'' ([] @ CHR '':'' # text))"
    by (rule contains_sep_char) simp
  moreover have "contains ''PRIVMSG'' ([] @ CHR '':'' # text) =
        (contains ''PRIVMSG'' [] \<or> contains ''PRIVMSG'' text)"
    by (rule contains_sep_char) simp
  ultimately have nb: "\<not> contains ''PRIVMSG'' ?b"
    using assms(2,4) by simp
  have "py_split ''PRIVMSG'' (?a @ ''PRIVMSG'' @ ?b) = ?a # py_split ''PRIVMSG'' ?b"
    by (rule py_split_first [OF _ na]) simp
  also have "py_split ''PRIVMSG'' ?b = [?b]"
    by (rule py_split_none [OF nb])
  finally have s1: "py_split ''PRIVMSG'' (privmsg_line origin target text) = [?a, ?b]"
    by (simp only: e)
  have "CHR '':'' \<notin> set ('' '' @ target @ '' '')" using assms(3) by simp
  then have "py_split1 '':'' (('' '' @ target @ '' '') @ CHR '':'' # text) =
             ['' '' @ target @ '' '', text]"
    by (rule py_split1_first)
  then have s2: "py_split1 '':'' ?b = ['' '' @ target @ '' '', text]" by simp
  have i1: "py_index [?a, ?b] 1 = Inr ?b" by (simp add: py_index_def)
  have i2: "py_index ['' '' @ target @ '' '', text] 1 = Inr text" by (simp add: py_index_def)
  show ?thesis
    by (simp only: message_of_def s1 i1 and_then_Inr s2 i2)
qed

lemma handle_line_privmsg_line:
  "handle_line w (privmsg_line origin target text) =
   handle_privmsg w (privmsg_line origin target text)"
  by (simp add: handle_line_def privmsg_line_no_ping split: prod.splits)


lemma py_strip_no_leading_space: "py_strip s = c # cs \<Longrightarrow> \<not> isspace c"
proof -
  assume a: "py_strip s = c # cs"
  define d where "d = dropWhile isspace s"
  show ?thesis
  proof (cases d)
    case Nil
    have "py_strip s = []" unfolding py_strip_def d_def [symmetric] Nil by simp
    with a show ?thesis by simp
  next
    case (Cons x xs)
    then have nx: "\<not> isspace x"
      unfolding d_def by (metis hd_dropWhile list.sel(1) list.simps(3))
    have "dropWhile isspace (rev xs @ [x]) = dropWhile isspace (rev xs) @ [x]"
      using nx by (simp add: dropWhile_append3)
    then have "py_strip s = x # rev (dropWhile isspace (rev xs))"
      using Cons by (simp add: py_strip_def d_def [symmetric])
    with a nx show ?thesis by simp
  qed
qed

lemma split_ws_from_prefix:
  "split_ws_from cur s = first # rest \<Longrightarrow> cur \<noteq> [] \<Longrightarrow> prefix first (cur @ s)"
proof (induction s arbitrary: cur)
  case Nil
  then show ?case by simp
next
  case (Cons c s)
  show ?case
  proof (cases "isspace c")
    case True
    with Cons.prems show ?thesis by simp
  next
    case False
    with Cons.prems have "split_ws_from (cur @ [c]) s = first # rest" by simp
    from Cons.IH [OF this] show ?thesis by simp
  qed
qed

lemma first_word_prefix:
  assumes "py_split_ws s = first # rest" and "\<And>c cs. s = c # cs \<Longrightarrow> \<not> isspace c"
  shows "prefix first s"
proof (cases s)
  case Nil
  with assms(1) show ?thesis by (simp add: py_split_ws_def)
next
  case (Cons c cs)
  with assms(2) have "\<not> isspace c" by simp
  with assms(1) Cons have "split_ws_from [c] cs = first # rest"
    by (simp add: py_split_ws_def)
  from split_ws_from_prefix [OF this] show ?thesis using Cons by simp
qed

lemma weather_first_word:
  assumes "prefix ''!weather'' s"
  shows "\<exists>first rest. py_split_ws s = first # rest \<and> prefix ''!weather'' first"
proof -
  from assms obtain r where r: "s = ''!weather'' @ r" by (auto simp: prefix_def)
  have "\<forall>c\<in>set ''!weather''. \<not> isspace c" by (simp add: isspace_def)
  then have "split_ws_from [] (''!weather'' @ r) = split_ws_from ([] @ ''!weather'') r"
    by (rule split_ws_from_token)
  moreover obtain t rest where "split_ws_from ''!weather'' r = (''!weather'' @ t) # rest"
    using split_ws_from_head [of "''!weather''" r] by auto
  ultimately have "py_split_ws s = (''!weather'' @ t) # rest"
    by (simp add: py_split_ws_def r)
  then show ?thesis by simp
qed

lemma prefix_first_word:
  assumes "py_split_ws s = first # rest" and "prefix p first"
      and "\<And>c cs. s = c # cs \<Longrightarrow> \<not> isspace c"
  shows "prefix p s"
  using first_word_prefix [OF assms(1,3)] assms(2) by (rule prefix_order.order_trans [rotated])














lemma registration_loop_idle:
  "registration_pass b x = Continue b [] \<Longrightarrow>
   registration_loop b (replicate n x) = ([], Waiting b)"
  by (induction n) simp_all





lemma registration_pass_closed: "registration_pass [] (Chunk []) = Continue [] []"
  by code_simp


lemma py_split_last_clean: "sep \<noteq> [] \<Longrightarrow> \<not> contains sep (last (py_split sep s))"
proof (induction sep s rule: py_split.induct)
  case (1 sep)
  then show ?case by simp
next
  case (2 sep c cs)
  show ?case
  proof (cases "prefix sep (c # cs)")
    case True
    with 2(1) 2(3) have "\<not> contains sep (last (py_split sep (drop (length sep) (c # cs))))"
      by simp
    with True 2(3) show ?thesis by (simp add: py_split_not_Nil del: drop_Suc_Cons)
  next
    case False
    with 2(2) 2(3) have ih: "\<not> contains sep (last (py_split sep cs))" by simp
    obtain l ls where s: "py_split sep cs = l # ls"
      using py_split_not_Nil [of sep cs] by (cases "py_split sep cs") auto
    show ?thesis
    proof (cases ls)
      case Nil
      with s have "l = cs" by (simp add: py_split_single)
      with s Nil ih False show ?thesis by simp
    next
      case (Cons l' ls')
      with s ih False show ?thesis by simp
    qed
  qed
qed

lemma frame_step_idle: "\<not> contains CRLF buffer \<Longrightarrow> frame_step buffer [] = ([], buffer)"
  by (simp add: frame_step_def py_split_none)

lemma active_pass_idle:
  "\<not> contains CRLF buffer \<Longrightarrow> active_pass w buffer (Chunk []) = Continue buffer []"
  by (simp add: active_pass_def frame_step_idle)

lemma active_loop_idle:
  "active_pass w b x = Continue b [] \<Longrightarrow> active_loop w b (replicate n x) = ([], Waiting b)"
  by (induction n) simp_all

lemma active_pass_buffer_clean:
  assumes "active_pass w b r = Continue b' out"
  shows "\<not> contains CRLF b'"
proof (cases r)
  case (Raises e)
  with assms have "b' = []" by (simp add: active_pass_def split: if_splits)
  then show ?thesis by (simp add: CRLF_def)
next
  case (Chunk chunk)
  with assms have "b' = last (py_split CRLF (b @ chunk))"
    by (auto simp: active_pass_def frame_step_def Let_def split: prod.splits option.splits)
  moreover have "CRLF \<noteq> []" by (simp add: CRLF_def)
  ultimately show ?thesis by (simp add: py_split_last_clean)
qed

lemma registration_pass_idle:
  assumes "\<not> contains ''PING'' buffer" and "\<not> contains ''001'' buffer"
      and "\<not> contains ''Closing Link'' buffer" and "\<not> contains ''ERROR'' buffer"
  shows "registration_pass buffer (Chunk []) = Continue buffer []"
  using assms by (simp add: registration_pass_def registration_ping_def)

lemma connect_closed_peer:
  "connect (Link (replicate n (Chunk []))) =
     ([Connect, Send (''NICK '' @ nickname),
       Send (''USER '' @ nickname @ '' 0 * :MansionNet Weather Information Bot'')],
      StillRegistering [])"
  by (simp add: connect_def registration_loop_idle [OF registration_pass_closed])

lemma registration_pass_welcome:
  "registration_pass [] (Chunk welcome_line) = Leave True []"
  by code_simp

lemma connect_welcome:
  "connect (Link (Chunk welcome_line # feed)) =
     ([Connect, Send (''NICK '' @ nickname),
       Send (''USER '' @ nickname @ '' 0 * :MansionNet Weather Information Bot'')]
      @ join_channels, Joined feed)"
  by (simp add: connect_def registration_pass_welcome)

lemma active_pass_closed: "active_pass w [] (Chunk []) = Continue [] []"
  by (rule active_pass_idle) (simp add: CRLF_def)

lemma registration_pass_abandon_sleeps:
  "registration_pass buffer r = Leave False out \<Longrightarrow> \<exists>out0. out = out0 @ [Sleep 5]"
  by (cases r) (auto simp: registration_pass_def Let_def split: sum.splits if_splits)

lemma registration_loop_abandon_sleeps:
  "registration_loop buffer feed = (out, Left False rest) \<Longrightarrow> \<exists>out0. out = out0 @ [Sleep 5]"
proof (induction feed arbitrary: buffer out)
  case Nil
  then show ?case by simp
next
  case (Cons r feed)
  show ?case
  proof (cases "registration_pass buffer r")
    case (Leave b out')
    with Cons.prems have "b = False" "out = out'" by simp_all
    with Leave show ?thesis by (auto dest: registration_pass_abandon_sleeps)
  next
    case (Continue buffer' out')
    obtain out2 e where l: "registration_loop buffer' feed = (out2, e)" by fastforce
    with Cons.prems Continue have e: "e = Left False rest" and o: "out = out' @ out2"
      by simp_all
    from Cons.IH [OF l [unfolded e]] obtain out0 where "out2 = out0 @ [Sleep 5]" by blast
    with o have "out = (out' @ out0) @ [Sleep 5]" by simp
    then show ?thesis by blast
  qed
qed

lemma connect_abandon_sleeps:
  assumes "connect l = (out, NotRegistered)"
  shows "\<exists>out0. out = out0 @ [Sleep 5]"
proof (cases l)
  case (Refused e)
  with assms show ?thesis by (simp add: connect_def)
next
  case (Link feed)
  obtain out1 e where r: "registration_loop [] feed = (out1, e)" by fastforce
  with assms Link obtain rest where e': "e = Left False rest"
    by (cases e) (auto simp: connect_def split: bool.splits)
  from registration_loop_abandon_sleeps [OF r [unfolded e']]
  obtain out0 where s: "out1 = out0 @ [Sleep 5]" by blast
  from assms Link r e' have
    "out = [Connect, Send (''NICK '' @ nickname),
            Send (''USER '' @ nickname @ '' 0 * :MansionNet Weather Information Bot'')] @ out1"
    by (simp add: connect_def)
  with s have
    "out = ([Connect, Send (''NICK '' @ nickname),
            Send (''USER '' @ nickname @ '' 0 * :MansionNet Weather Information Bot'')] @ out0)
           @ [Sleep 5]" by simp
  then show ?thesis by blast
qed

lemma connect_starts: "\<exists>es. fst (connect l) = Connect # es"
  by (cases l) (auto simp: connect_def split: prod.splits)

lemma run_starts: "\<exists>es. fst (run w (l # links)) = Connect # es"
proof -
  obtain out c where c: "connect l = (out, c)" by fastforce
  with connect_starts [of l] obtain es where "out = Connect # es" by auto
  with c show ?thesis
    by (cases c) (auto split: prod.splits loop_end.splits)
qed

lemma handle_message_no_close: "Close \<notin> set (handle_message w t m)"
  by (simp add: handle_message_def send_message_def Let_def)

lemma handle_line_no_close: "Close \<notin> set (fst (handle_line w line))"
  by (auto simp: handle_line_def handle_ping_def handle_privmsg_def handle_message_no_close
      split: prod.splits option.splits sum.splits if_splits)

lemma process_lines_no_close: "Close \<notin> set (fst (process_lines w lines))"
proof (induction lines)
  case Nil
  show ?case by simp
next
  case (Cons line lines)
  then show ?case
    using handle_line_no_close [of w line]
    by (auto split: prod.splits option.splits)
qed

lemma active_pass_no_close:
  "active_pass w b r = Continue b' out \<Longrightarrow> Close \<notin> set out"
  "active_pass w b r = Leave e out \<Longrightarrow> Close \<notin> set out"
  using process_lines_no_close [of w "fst (frame_step b (case r of Chunk c \<Rightarrow> c | Raises x \<Rightarrow> []))"]
  by (auto simp: active_pass_def split: recv.splits prod.splits option.splits if_splits)

lemma active_loop_no_close: "Close \<notin> set (fst (active_loop w b feed))"
proof (induction feed arbitrary: b)
  case Nil
  show ?case by simp
next
  case (Cons r feed)
  show ?case
  proof (cases "active_pass w b r")
    case (Leave e out)
    then show ?thesis using active_pass_no_close(2) [OF Leave] by simp
  next
    case (Continue b' out)
    then show ?thesis
      using active_pass_no_close(1) [OF Continue] Cons [of b']
      by (auto split: prod.splits)
  qed
qed

lemma registration_pass_no_close:
  "registration_pass b r = Continue b' out \<Longrightarrow> Close \<notin> set out"
  "registration_pass b r = Leave x out \<Longrightarrow> Close \<notin> set out"
  by (auto simp: registration_pass_def registration_ping_def and_then_def Let_def
      split: recv.splits sum.splits if_splits)

lemma registration_loop_no_close: "Close \<notin> set (fst (registration_loop b feed))"
proof (induction feed arbitrary: b)
  case Nil
  show ?case by simp
next
  case (Cons r feed)
  show ?case
  proof (cases "registration_pass b r")
    case (Leave x out)
    then show ?thesis using registration_pass_no_close(2) [OF Leave] by simp
  next
    case (Continue b' out)
    then show ?thesis
      using registration_pass_no_close(1) [OF Continue] Cons [of b']
      by (auto split: prod.splits)
  qed
qed

lemma connect_no_close: "Close \<notin> set (fst (connect l))"
proof (cases l)
  case (Refused e)
  then show ?thesis by (simp add: connect_def)
next
  case (Link feed)
  have "Close \<notin> set join_channels" by (auto simp: join_channels_def)
  then show ?thesis
    using registration_loop_no_close [of "[]" feed] Link
    by (auto simp: connect_def split: prod.splits loop_end.splits bool.splits)
qed

lemma run_no_close: "Close \<notin> set (fst (run w links))"
proof (induction links)
  case Nil
  show ?case by simp
next
  case (Cons l links)
  obtain out c where c: "connect l = (out, c)" by fastforce
  with connect_no_close [of l] have o: "Close \<notin> set out" by simp
  show ?case
  proof (cases c)
    case (Joined feed)
    obtain out1 e where a: "active_loop w [] feed = (out1, e)" by fastforce
    with active_loop_no_close [of w "[]" feed] have "Close \<notin> set out1" by simp
    with c o Joined a Cons show ?thesis
      by (cases e) (auto split: prod.splits)
  next
    case NotRegistered
    with c o Cons show ?thesis by (auto split: prod.splits)
  next
    case (ConnectRaised e)
    with c o Cons show ?thesis by (auto split: prod.splits)
  next
    case (StillRegistering b)
    with c o show ?thesis by simp
  qed
qed

section \<open>Claims about the line framing\<close>

text \<open>
  Claim C2.  Take any list \<open>ls\<close> of lines, none of which contains the terminator, and
  the CRLF-terminated input \<open>reinsert ls\<close> they make up.  However that input is cut into
  chunks \<open>chunks\<close> (so \<open>concat chunks = reinsert ls\<close>), feeding the chunks to the framing
  step one at a time from the empty buffer yields exactly the lines \<open>ls\<close>, in order, and
  leaves an empty residual buffer; and the yielded lines with their terminators
  reinserted, followed by the residual buffer, are the original input.  A cut between the
  CR and the LF of a terminator is one of these cuts (the witness below is such a cut).
\<close>

theorem framing_chunking_transparent:
  assumes "\<forall>l\<in>set ls. \<not> contains CRLF l" and "concat chunks = reinsert ls"
  shows "frame_chunks [] chunks = (ls, []) \<and>
         reinsert (fst (frame_chunks [] chunks)) @ snd (frame_chunks [] chunks) = concat chunks"
proof
  have rt: "reinsert (fst (frame_chunks [] chunks)) @ snd (frame_chunks [] chunks) = concat chunks"
    using frame_chunks_roundtrip [of "[]" chunks "fst (frame_chunks [] chunks)" "snd (frame_chunks [] chunks)"] by simp
  show "frame_chunks [] chunks = (ls, [])"
  proof (cases chunks)
    case Nil
    with assms(2) have "reinsert ls = []" by simp
    then have "ls = []" by (cases ls) (simp_all add: reinsert_def CRLF_def)
    with Nil show ?thesis by simp
  next
    case (Cons c cs)
    then have "frame_chunks [] chunks = frame_step [] (reinsert ls)"
      using frame_chunks_whole [of "[]" c cs] assms(2) by simp
    then show ?thesis
      using py_split_CRLF_lines [OF assms(1)] by (simp add: frame_step_def Let_def)
  qed
  show "reinsert (fst (frame_chunks [] chunks)) @ snd (frame_chunks [] chunks) = concat chunks"
    by (rule rt)
qed

theorem framing_chunking_transparent_witness:
  "frame_chunks [] [''abc'' @ [CHR 0x0D], [CHR 0x0A] @ ''de'' @ CRLF] = ([''abc'', ''de''], [])"
proof -
  have h1: "\<forall>l\<in>set [''abc'', ''de'']. \<not> contains CRLF l"
    by (simp add: CRLF_def)
  have h2: "concat [''abc'' @ [CHR 0x0D], [CHR 0x0A] @ ''de'' @ CRLF] = reinsert [''abc'', ''de'']"
    by (simp add: reinsert_def CRLF_def)
  from framing_chunking_transparent [OF h1 h2] show ?thesis
    by (rule conjunct1)
qed

section \<open>Claims about the dispatch of a line\<close>




text \<open>
  Claim C3, as amended.  For a relayed message \<open>:origin PRIVMSG target :text\<close> whose
  origin and target are single words, whose target holds no colon, and in which neither
  origin, target nor text contains the word \<open>PRIVMSG\<close>, the bot reads the target
  exactly, and reads as message the text with leading and trailing whitespace stripped
  (inner spaces kept); the message is handled as a command when the target is a
  configured channel.  A line that does not contain the substring \<open>PRIVMSG\<close> is never
  treated as a channel message: only the \<open>PING\<close> code sees it.
\<close>

theorem privmsg_target_and_text:
  assumes "\<forall>c\<in>set origin. \<not> isspace c" and "\<not> contains ''PRIVMSG'' origin"
      and "target \<noteq> []" and "\<forall>c\<in>set target. \<not> isspace c"
      and "CHR '':'' \<notin> set target" and "\<not> contains ''PRIVMSG'' target"
      and "\<not> contains ''PRIVMSG'' text"
  shows "target_of (privmsg_line origin target text) = Inr target \<and>
         message_of (privmsg_line origin target text) = Inr (py_strip text) \<and>
         handle_line w (privmsg_line origin target text) =
           (if target \<in> set channels then handle_message w target (py_strip text) else [],
            None) \<and>
         (\<forall>line. \<not> contains ''PRIVMSG'' line \<longrightarrow> handle_line w line = handle_ping line)"
proof -
  have t: "target_of (privmsg_line origin target text) = Inr target"
    by (rule privmsg_line_target [OF assms(1,3,4)])
  have m: "message_of (privmsg_line origin target text) = Inr (py_strip text)"
    by (rule privmsg_line_message [OF assms(2,6,5,7)])
  have h: "handle_line w (privmsg_line origin target text) =
           (if target \<in> set channels then handle_message w target (py_strip text) else [],
            None)"
    by (simp add: handle_line_privmsg_line handle_privmsg_def t m privmsg_line_contains)
  have n: "\<forall>line. \<not> contains ''PRIVMSG'' line \<longrightarrow> handle_line w line = handle_ping line"
    by (auto simp: handle_line_def handle_privmsg_def split: prod.splits option.splits)
  from t m h n show ?thesis by (intro conjI)
qed

theorem privmsg_target_and_text_witness:
  "target_of (privmsg_line ''nick!user@host'' ''#help'' '' !weather  New York '') = Inr ''#help'' \<and>
   message_of (privmsg_line ''nick!user@host'' ''#help'' '' !weather  New York '')
     = Inr ''!weather  New York'' \<and>
   handle_line offline (privmsg_line ''nick!user@host'' ''#help'' '' !weather  New York '')
     = ([Send ''PRIVMSG #help :Could not find location: New York''], None) \<and>
   handle_line offline '':irc 372 WeatherBot :- message of the day'' = ([], None)"
proof -
  have h1: "\<forall>c\<in>set ''nick!user@host''. \<not> isspace c" by (simp add: isspace_def)
  have h2: "\<not> contains ''PRIVMSG'' ''nick!user@host''" by simp
  have h3: "''#help'' \<noteq> []" by simp
  have h4: "\<forall>c\<in>set ''#help''. \<not> isspace c" by (simp add: isspace_def)
  have h5: "CHR '':'' \<notin> set ''#help''" by simp
  have h6: "\<not> contains ''PRIVMSG'' ''#help''" by simp
  have h7: "\<not> contains ''PRIVMSG'' '' !weather  New York ''" by simp
  have s: "py_strip '' !weather  New York '' = ''!weather  New York''" by code_simp
  have c: "''#help'' \<in> set channels" by (simp add: channels_def)
  have m: "handle_message offline ''#help'' ''!weather  New York'' =
           [Send ''PRIVMSG #help :Could not find location: New York'']" by code_simp
  have n: "\<not> contains ''PRIVMSG'' '':irc 372 WeatherBot :- message of the day''" by code_simp
  have p: "handle_ping '':irc 372 WeatherBot :- message of the day'' = ([], None)"
    by (simp add: handle_ping_def)
  from privmsg_target_and_text [OF h1 h2 h3 h4 h5 h6 h7, of offline] show ?thesis
    using s c m n p by simp
qed

text \<open>
  The claim as stated fails: a text that contains the word \<open>PRIVMSG\<close> is cut at that
  word (so \<open>!weather PRIVMSG\<close> is answered with the usage text), and a line whose
  command is \<open>NOTICE\<close> but whose text contains \<open>PRIVMSG\<close> is handled as a channel
  message.
\<close>

theorem privmsg_text_containing_PRIVMSG:
  "message_of (privmsg_line ''nick!user@host'' ''#help'' ''!weather PRIVMSG'') = Inr ''!weather'' \<and>
   handle_line offline (privmsg_line ''nick!user@host'' ''#help'' ''!weather PRIVMSG'')
     = ([Send ''PRIVMSG #help :Usage: !weather <city>''], None) \<and>
   handle_line offline '':irc NOTICE #help :PRIVMSG :!help'' = ([send_message ''#help'' help_msg], None)"
  by code_simp

text \<open>
  Claim C6, as amended.  The message is the text of the line, stripped.  When its first
  word begins with \<open>!weather\<close> (a test of the leading characters, not of the whole
  word), the reply is the usage text if no further word follows, and otherwise what
  the lookup returns for the remaining words joined by single spaces.  When its first
  word does not begin with \<open>!weather\<close>, or there is no word, no lookup is made: the reply
  is the help text for the message \<open>!help\<close> and nothing otherwise.
\<close>

theorem weather_command_dispatch:
  assumes "message = py_strip text"
  shows "(\<forall>first rest. py_split_ws message = first # rest \<and> prefix ''!weather'' first \<longrightarrow>
            handle_message w target message =
              [send_message target
                 (if rest = [] then ''Usage: !weather <city>''
                  else get_weather w (join_sp rest))]) \<and>
         ((\<forall>first rest. py_split_ws message = first # rest \<longrightarrow> \<not> prefix ''!weather'' first) \<longrightarrow>
            handle_message w target message =
              (if message = ''!help'' then [send_message target help_msg] else []))"
proof (intro conjI allI impI)
  fix first rest
  assume a: "py_split_ws message = first # rest \<and> prefix ''!weather'' first"
  have nl: "\<And>c cs. message = c # cs \<Longrightarrow> \<not> isspace c"
    using assms py_strip_no_leading_space by metis
  from a have "prefix ''!weather'' message"
    using prefix_first_word [where s = message and first = first and rest = rest
        and p = "''!weather''"] nl by blast
  with a show "handle_message w target message =
      [send_message target
         (if rest = [] then ''Usage: !weather <city>'' else get_weather w (join_sp rest))]"
    by (simp add: handle_message_def Let_def)
next
  assume "\<forall>first rest. py_split_ws message = first # rest \<longrightarrow> \<not> prefix ''!weather'' first"
  then have "\<not> prefix ''!weather'' message"
    using weather_first_word [of message] by blast
  then show "handle_message w target message =
      (if message = ''!help'' then [send_message target help_msg] else [])"
    by (simp add: handle_message_def)
qed

theorem weather_command_dispatch_witness:
  "handle_message offline ''#help'' ''!weather  New York'' =
     [send_message ''#help'' (get_weather offline ''New York'')] \<and>
   handle_message offline ''#help'' ''!weather'' =
     [send_message ''#help'' ''Usage: !weather <city>''] \<and>
   handle_message offline ''#help'' ''weather Paris'' = []"
proof -
  have s1: "''!weather  New York'' = py_strip '' !weather  New York ''" by code_simp
  have s2: "''!weather'' = py_strip ''!weather ''" by code_simp
  have s3: "''weather Paris'' = py_strip ''weather Paris''" by code_simp
  have w1: "py_split_ws ''!weather  New York'' = [''!weather'', ''New'', ''York'']" by code_simp
  have w2: "py_split_ws ''!weather'' = [''!weather'']" by code_simp
  have w3: "py_split_ws ''weather Paris'' = [''weather'', ''Paris'']" by code_simp
  have "handle_message offline ''#help'' ''!weather  New York'' =
     [send_message ''#help'' (get_weather offline ''New York'')]"
    using weather_command_dispatch [OF s1, of offline "''#help''"] w1 by simp
  moreover have "handle_message offline ''#help'' ''!weather'' =
     [send_message ''#help'' ''Usage: !weather <city>'']"
    using weather_command_dispatch [OF s2, of offline "''#help''"] w2 by simp
  moreover have "handle_message offline ''#help'' ''weather Paris'' = []"
    using weather_command_dispatch [OF s3, of offline "''#help''"] w3 by simp
  ultimately show ?thesis by simp
qed

text \<open>
  The claim as stated fails: \<open>!weatherx Paris\<close>, whose first word is not the token
  \<open>!weather\<close>, makes the bot look up \<open>Paris\<close> and reply.
\<close>

theorem weatherx_is_dispatched:
  "handle_message offline ''#help'' ''!weatherx Paris'' =
     [send_message ''#help'' (get_weather offline ''Paris'')] \<and>
   handle_line offline (privmsg_line ''nick!user@host'' ''#help'' ''!weatherx Paris'') =
     ([Send ''PRIVMSG #help :Could not find location: Paris''], None)"
  by code_simp




section \<open>Claims about the weather lookup\<close>




section \<open>Claims about the registration loop\<close>

text \<open>
  Claim C4.  The claim holds of the loop of \<open>run\<close>, and the registration loop breaks
  it.  The registration loop never empties its buffer and answers the first \<open>PING\<close> it
  finds in it: fed \<open>PING :a\<close> and then \<open>PING :b\<close>, it sends \<open>PONG :a\<close> twice and never
  \<open>PONG :b\<close>; fed both in one read, it sends one \<open>PONG :a\<close>.  The loop of \<open>run\<close>, on
  the same reads, answers each \<open>PING\<close> with its own token, in order.
\<close>

theorem registration_answers_first_ping_only:
  "registration_loop [] [Chunk (''PING :a'' @ CRLF), Chunk (''PING :b'' @ CRLF)]
     = ([Send ''PONG :a'', Send ''PONG :a''],
        Waiting (''PING :a'' @ CRLF @ ''PING :b'' @ CRLF)) \<and>
   registration_loop [] [Chunk (''PING :a'' @ CRLF @ ''PING :b'' @ CRLF)]
     = ([Send ''PONG :a''], Waiting (''PING :a'' @ CRLF @ ''PING :b'' @ CRLF)) \<and>
   active_loop offline [] [Chunk (''PING :a'' @ CRLF), Chunk (''PING :b'' @ CRLF)]
     = ([Send ''PONG :a'', Send ''PONG :b''], Waiting []) \<and>
   active_loop offline [] [Chunk (''PING :a'' @ CRLF @ ''PING :b'' @ CRLF)]
     = ([Send ''PONG :a'', Send ''PONG :b''], Waiting [])"
  by code_simp




section \<open>Claims about a closed connection and about reconnecting\<close>

text \<open>
  Reads that return the empty chunk.  Such a read leaves the loop of \<open>run\<close> running with
  its buffer unchanged and sends nothing (its buffer never holds a terminator between
  two passes); it leaves the registration loop running with its buffer unchanged, and
  sends nothing when that buffer holds none of \<open>PING\<close>, \<open>001\<close>, \<open>Closing Link\<close> and
  \<open>ERROR\<close>.  In these cases either loop goes on for any number of such reads, and
  \<open>run\<close> neither sleeps nor connects again, whatever connections could follow.
\<close>

theorem clean_close_spins:
  "(\<not> contains CRLF buffer \<longrightarrow>
      active_pass w buffer (Chunk []) = Continue buffer [] \<and>
      (\<forall>n. active_loop w buffer (replicate n (Chunk [])) = ([], Waiting buffer))) \<and>
   (\<forall>b r b' out. active_pass w b r = Continue b' out \<longrightarrow> \<not> contains CRLF b') \<and>
   (\<not> contains ''PING'' buffer \<and> \<not> contains ''001'' buffer \<and>
    \<not> contains ''Closing Link'' buffer \<and> \<not> contains ''ERROR'' buffer \<longrightarrow>
      registration_pass buffer (Chunk []) = Continue buffer [] \<and>
      (\<forall>n. registration_loop buffer (replicate n (Chunk [])) = ([], Waiting buffer))) \<and>
   (\<forall>n links. run w (Link (replicate n (Chunk [])) # links) =
      ([Connect, Send (''NICK '' @ nickname),
        Send (''USER '' @ nickname @ '' 0 * :MansionNet Weather Information Bot'')],
       Blocked)) \<and>
   (\<forall>n links.
      run w (Link (Chunk welcome_line # replicate n (Chunk [])) # links) =
      ([Connect, Send (''NICK '' @ nickname),
        Send (''USER '' @ nickname @ '' 0 * :MansionNet Weather Information Bot'')]
       @ join_channels, Blocked))"
proof (intro conjI allI impI)
  assume c: "\<not> contains CRLF buffer"
  then show "active_pass w buffer (Chunk []) = Continue buffer []" by (rule active_pass_idle)
  fix n
  show "active_loop w buffer (replicate n (Chunk [])) = ([], Waiting buffer)"
    by (rule active_loop_idle [OF active_pass_idle [OF c]])
next
  fix b r b' out
  assume "active_pass w b r = Continue b' out"
  then show "\<not> contains CRLF b'" by (rule active_pass_buffer_clean)
next
  assume a: "\<not> contains ''PING'' buffer \<and> \<not> contains ''001'' buffer \<and>
    \<not> contains ''Closing Link'' buffer \<and> \<not> contains ''ERROR'' buffer"
  then show p: "registration_pass buffer (Chunk []) = Continue buffer []"
    by (simp add: registration_pass_idle)
  fix n
  show "registration_loop buffer (replicate n (Chunk [])) = ([], Waiting buffer)"
    by (rule registration_loop_idle [OF p])
next
  fix n links
  show "run w (Link (replicate n (Chunk [])) # links) =
      ([Connect, Send (''NICK '' @ nickname),
        Send (''USER '' @ nickname @ '' 0 * :MansionNet Weather Information Bot'')],
       Blocked)"
    by (simp add: connect_closed_peer)
next
  fix n links
  show "run w (Link (Chunk welcome_line # replicate n (Chunk [])) # links) =
      ([Connect, Send (''NICK '' @ nickname),
        Send (''USER '' @ nickname @ '' 0 * :MansionNet Weather Information Bot'')]
       @ join_channels, Blocked)"
    by (simp add: connect_welcome active_loop_idle [OF active_pass_closed])
qed

theorem clean_close_spins_witness:
  "active_loop offline ''PING :par'' (replicate 3 (Chunk [])) = ([], Waiting ''PING :par'') \<and>
   registration_loop ''NOTICE'' (replicate 3 (Chunk [])) = ([], Waiting ''NOTICE'') \<and>
   run offline [Link (replicate 3 (Chunk [])), Link [Chunk welcome_line]] =
     ([Connect, Send (''NICK '' @ nickname),
       Send (''USER '' @ nickname @ '' 0 * :MansionNet Weather Information Bot'')],
      Blocked)"
proof (intro conjI)
  have h: "\<not> contains CRLF ''PING :par''" by code_simp
  from clean_close_spins [of "''PING :par''" offline, THEN conjunct1, THEN mp, OF h,
      THEN conjunct2, THEN spec, of 3]
  show "active_loop offline ''PING :par'' (replicate 3 (Chunk [])) = ([], Waiting ''PING :par'')" .
next
  have h: "\<not> contains ''PING'' ''NOTICE'' \<and> \<not> contains ''001'' ''NOTICE'' \<and>
    \<not> contains ''Closing Link'' ''NOTICE'' \<and> \<not> contains ''ERROR'' ''NOTICE''" by code_simp
  from clean_close_spins [of "''NOTICE''" offline, THEN conjunct2, THEN conjunct2,
      THEN conjunct1, THEN mp, OF h, THEN conjunct2, THEN spec, of 3]
  show "registration_loop ''NOTICE'' (replicate 3 (Chunk [])) = ([], Waiting ''NOTICE'')" .
next
  from clean_close_spins [of "[]" offline, THEN conjunct2, THEN conjunct2,
      THEN conjunct2, THEN conjunct1, THEN spec, THEN spec, of 3 "[Link [Chunk welcome_line]]"]
  show "run offline [Link (replicate 3 (Chunk [])), Link [Chunk welcome_line]] =
     ([Connect, Send (''NICK '' @ nickname),
       Send (''USER '' @ nickname @ '' 0 * :MansionNet Weather Information Bot'')],
      Blocked)" .
qed

text \<open>
  Claim C10.  The claim holds of the loop of \<open>run\<close>, and the registration loop breaks
  it: that loop never empties its buffer and looks for \<open>PING\<close> in the whole of it at
  every pass, so once a \<open>PING\<close> has been received, every read that returns the empty
  chunk sends the \<open>PONG\<close> again, where the claim has the loop emit no output.  Fed
  \<open>PING :abc\<close> and then two empty chunks, the registration loop sends \<open>PONG :abc\<close>
  three times.
\<close>

theorem empty_read_resends_pong:
  "registration_pass (''PING :abc'' @ CRLF) (Chunk [])
     = Continue (''PING :abc'' @ CRLF) [Send ''PONG :abc''] \<and>
   registration_loop [] [Chunk (''PING :abc'' @ CRLF), Chunk [], Chunk []]
     = ([Send ''PONG :abc'', Send ''PONG :abc'', Send ''PONG :abc''],
        Waiting (''PING :abc'' @ CRLF))"
  by code_simp

text \<open>
  Claim C9, as amended.  When the loop of \<open>run\<close> is left with an exception, whatever it
  is and whatever was left in the buffer, the reads that remain on that connection are
  never made: the bot sleeps 30 seconds and then behaves exactly as a bot started afresh
  on the connections that follow, beginning with a new \<open>Connect\<close> (so the framing
  buffer of the new attempt is the empty one of a fresh start).  A registration that is
  abandoned ends with a sleep of 5 seconds before the next attempt, and 5 is less than
  30.  The session is not released: \<open>run\<close> never closes a socket, the old one stays
  bound through the sleep until the next \<open>Connect\<close> replaces it.
\<close>

theorem reconnect_after_fatal_error:
  "(connect l = (out, Joined feed) \<and> active_loop w [] feed = (out1, Left e rest) \<longrightarrow>
      run w (l # links) =
        (out @ out1 @ [Sleep 30] @ fst (run w links), snd (run w links))) \<and>
   (connect l = (out, NotRegistered) \<longrightarrow>
      (\<exists>out0. out = out0 @ [Sleep 5]) \<and>
      run w (l # links) = (out @ fst (run w links), snd (run w links))) \<and>
   (\<exists>es. fst (run w (l # links)) = Connect # es) \<and>
   (5 :: nat) < 30 \<and>
   Close \<notin> set (fst (run w (l # links)))"
proof (intro conjI impI)
  assume "connect l = (out, Joined feed) \<and> active_loop w [] feed = (out1, Left e rest)"
  then show "run w (l # links) =
        (out @ out1 @ [Sleep 30] @ fst (run w links), snd (run w links))"
    by (simp split: prod.splits)
next
  assume a: "connect l = (out, NotRegistered)"
  then show "\<exists>out0. out = out0 @ [Sleep 5]" by (rule connect_abandon_sleeps)
  from a show "run w (l # links) = (out @ fst (run w links), snd (run w links))"
    by (simp split: prod.splits)
next
  show "\<exists>es. fst (run w (l # links)) = Connect # es" by (rule run_starts)
next
  show "(5 :: nat) < 30" by simp
next
  show "Close \<notin> set (fst (run w (l # links)))" by (rule run_no_close)
qed

theorem reconnect_after_fatal_error_witness:
  "run offline
     [Link [Chunk welcome_line, Chunk ''PING :par'', Raises (OtherException ''Connection reset'')],
      Link [Chunk welcome_line, Chunk (''tial'' @ CRLF)]] =
   ([Connect, Send ''NICK WeatherBot'',
     Send ''USER WeatherBot 0 * :MansionNet Weather Information Bot'',
     Send ''JOIN #help'', Sleep 1, Send ''JOIN #welcome'', Sleep 1,
     Sleep 30,
     Connect, Send ''NICK WeatherBot'',
     Send ''USER WeatherBot 0 * :MansionNet Weather Information Bot'',
     Send ''JOIN #help'', Sleep 1, Send ''JOIN #welcome'', Sleep 1],
    Blocked) \<and>
   run offline [Link [Chunk (''ERROR :Closing Link: (Registration timed out)'' @ CRLF)]] =
   ([Connect, Send ''NICK WeatherBot'',
     Send ''USER WeatherBot 0 * :MansionNet Weather Information Bot'', Sleep 5],
    Stopped)"
proof
  let ?l1 = "Link [Chunk welcome_line, Chunk ''PING :par'',
                   Raises (OtherException ''Connection reset'')]"
  let ?l2 = "Link [Chunk welcome_line, Chunk (''tial'' @ CRLF)]"
  let ?hello = "[Connect, Send ''NICK WeatherBot'',
     Send ''USER WeatherBot 0 * :MansionNet Weather Information Bot'',
     Send ''JOIN #help'', Sleep 1, Send ''JOIN #welcome'', Sleep 1]"
  have h: "connect ?l1 = (?hello, Joined [Chunk ''PING :par'',
              Raises (OtherException ''Connection reset'')]) \<and>
           active_loop offline [] [Chunk ''PING :par'', Raises (OtherException ''Connection reset'')]
             = ([], Left (OtherException ''Connection reset'') [])"
    by code_simp
  have r2: "run offline [?l2] = (?hello, Blocked)" by code_simp
  from reconnect_after_fatal_error [of ?l1 ?hello _ offline "[]" _ "[]" "[?l2]",
      THEN conjunct1, THEN mp, OF h]
  have "run offline [?l1, ?l2] =
        (?hello @ [] @ [Sleep 30] @ fst (run offline [?l2]), snd (run offline [?l2]))" .
  then show "run offline [?l1, ?l2] =
     ([Connect, Send ''NICK WeatherBot'',
     Send ''USER WeatherBot 0 * :MansionNet Weather Information Bot'',
     Send ''JOIN #help'', Sleep 1, Send ''JOIN #welcome'', Sleep 1,
     Sleep 30,
     Connect, Send ''NICK WeatherBot'',
     Send ''USER WeatherBot 0 * :MansionNet Weather Information Bot'',
     Send ''JOIN #help'', Sleep 1, Send ''JOIN #welcome'', Sleep 1],
    Blocked)"
    unfolding r2 by simp
next
  let ?l = "Link [Chunk (''ERROR :Closing Link: (Registration timed out)'' @ CRLF)]"
  let ?bye = "[Connect, Send ''NICK WeatherBot'',
     Send ''USER WeatherBot 0 * :MansionNet Weather Information Bot'', Sleep 5]"
  have h: "connect ?l = (?bye, NotRegistered)" by code_simp
  from reconnect_after_fatal_error [of ?l ?bye _ offline _ _ _ "[]",
      THEN conjunct2, THEN conjunct1, THEN mp, OF h, THEN conjunct2]
  have "run offline [?l] = (?bye @ fst (run offline []), snd (run offline []))" .
  then show "run offline [?l] = (?bye, Stopped)" by simp
qed

text \<open>
  The claim as stated fails: after a fatal error in the loop of \<open>run\<close> nothing is closed
  or released; the next thing the bot does is the sleep, and then the new \<open>Connect\<close>.
\<close>

theorem no_close_after_fatal_error:
  "run offline
     [Link [Chunk welcome_line, Raises (OtherException ''Connection reset by peer'')],
      Link []] =
   ([Connect, Send ''NICK WeatherBot'',
     Send ''USER WeatherBot 0 * :MansionNet Weather Information Bot'',
     Send ''JOIN #help'', Sleep 1, Send ''JOIN #welcome'', Sleep 1,
     Sleep 30,
     Connect, Send ''NICK WeatherBot'',
     Send ''USER WeatherBot 0 * :MansionNet Weather Information Bot''],
    Blocked) \<and>
   Close \<notin> set (fst (run offline
     [Link [Chunk welcome_line, Raises (OtherException ''Connection reset by peer'')],
      Link []]))"
  by code_simp

end
